theory Spec2Isabelle
  imports Main "HOL-Library.FSet" "HOL-Library.Char_ord" "HOL-Library.List_Lexorder"
    "HOL-Library.Sublist"
begin

section \<open>Kripke models (data.py, class Kripke)\<close>

text \<open>
  Worlds and variable names are Python strings. A Python \<^verbatim>\<open>set\<close> is a finite set, so it is
  an \<open>fset\<close>. \<^verbatim>\<open>V\<close> and \<^verbatim>\<open>R\<close> are \<^verbatim>\<open>defaultdict(set)\<close>: reading a missing key yields the
  empty set, so both are total functions into finite sets (that a read also stores the
  empty set under the key is invisible to every method modelled here).
  \<^verbatim>\<open>_cached_blind_worlds\<close> is \<^verbatim>\<open>None\<close> or a set.
\<close>

type_synonym world = string

record kripke =
  V :: "string \<Rightarrow> world fset"
  W :: "world fset"
  R :: "world \<Rightarrow> world fset"
  cached_blind_worlds :: "world fset option"

definition Kripke_init :: kripke where
  "Kripke_init = \<lparr> V = (\<lambda>_. {||}), W = {||}, R = (\<lambda>_. {||}), cached_blind_worlds = None \<rparr>"

text \<open>\<^verbatim>\<open>blind_worlds\<close>: returns the cache when it is not \<^verbatim>\<open>None\<close> (an empty cached set is
  not \<^verbatim>\<open>None\<close>), otherwise computes, stores and returns the set.\<close>

definition blind_worlds :: "kripke \<Rightarrow> world fset \<times> kripke" where
  "blind_worlds k =
     (case cached_blind_worlds k of
        Some c \<Rightarrow> (c, k)
      | None \<Rightarrow>
          (let c = ffilter (\<lambda>w. R k w = {||}) (W k)
           in (c, k\<lparr>cached_blind_worlds := Some c\<rparr>)))"

definition add_vals :: "string \<Rightarrow> world list \<Rightarrow> kripke \<Rightarrow> kripke" where
  "add_vals var ws k = k\<lparr>V := (V k)(var := V k var |\<union>| fset_of_list ws)\<rparr>"

definition add_val :: "string \<Rightarrow> world \<Rightarrow> kripke \<Rightarrow> kripke" where
  "add_val var w k = k\<lparr>V := (V k)(var := finsert w (V k var))\<rparr>"

definition add_worlds :: "world list \<Rightarrow> kripke \<Rightarrow> kripke" where
  "add_worlds ws k = k\<lparr>W := W k |\<union>| fset_of_list ws\<rparr>"

definition add_world :: "world \<Rightarrow> kripke \<Rightarrow> kripke" where
  "add_world w k = k\<lparr>W := finsert w (W k)\<rparr>"

definition add_trans :: "world \<times> world \<Rightarrow> kripke \<Rightarrow> kripke" where
  "add_trans t k = k\<lparr>R := (R k)(fst t := finsert (snd t) (R k (fst t)))\<rparr>"

fun add_transes :: "(world \<times> world) list \<Rightarrow> kripke \<Rightarrow> kripke" where
  "add_transes [] k = k"
| "add_transes ((a, b) # ts) k = add_transes ts (k\<lparr>R := (R k)(a := finsert b (R k a))\<rparr>)"

section \<open>Logic expressions (data.py, the subclasses of LogicExpression)\<close>

text \<open>
  A node is immutable after construction, so \<^verbatim>\<open>calc\<close> sees an expression object as the
  tree of its class and children.
\<close>

datatype expr =
    Var string
  | Constant bool
  | Not_e expr
  | Box expr
  | Diamond expr
  | And expr expr
  | Or expr expr
  | Implies expr expr

text \<open>The class attribute \<^verbatim>\<open>class_name\<close>; \<^verbatim>\<open>same_type\<close> compares it.\<close>

fun class_name :: "expr \<Rightarrow> string" where
  "class_name (And l r) = ''and''"
| "class_name (Or l r) = ''or''"
| "class_name (Implies l r) = ''implies''"
| "class_name (Not_e e) = ''not''"
| "class_name (Box e) = ''box''"
| "class_name (Diamond e) = ''box''"
| "class_name (Var n) = ''var''"
| "class_name (Constant b) = ''const''"

definition same_type :: "expr \<Rightarrow> expr \<Rightarrow> bool" where
  "same_type self other = (class_name self = class_name other)"

text \<open>
  \<^verbatim>\<open>calc\<close>. \<^verbatim>\<open>Box.calc\<close> calls \<^verbatim>\<open>kripke.blind_worlds()\<close>, which may fill the cache, so the model
  is threaded through: operands are evaluated left to right, and \<^verbatim>\<open>Implies.calc\<close> returns
  before evaluating its right operand when the left result is empty.
\<close>

fun calc :: "expr \<Rightarrow> kripke \<Rightarrow> world fset \<times> kripke" where
  "calc (Var n) k = (V k n, k)"
| "calc (Constant b) k = ((if b then W k else {||}), k)"
| "calc (Not_e e) k = (let (r, k1) = calc e k in (W k1 |-| r, k1))"
| "calc (And l r) k =
     (let (lhs, k1) = calc l k; (rhs, k2) = calc r k1 in (lhs |\<inter>| rhs, k2))"
| "calc (Or l r) k =
     (let (lhs, k1) = calc l k; (rhs, k2) = calc r k1 in (lhs |\<union>| rhs, k2))"
| "calc (Implies l r) k =
     (let (lhs, k1) = calc l k; res = W k1 |-| lhs
      in if lhs = {||} then (res, k1)
         else (let (rhs, k2) = calc r k1 in (res |\<union>| (lhs |\<inter>| rhs), k2)))"
| "calc (Box e) k =
     (let (internal, k1) = calc e k;
          actual = ffilter (\<lambda>w. fBall (R k1 w) (\<lambda>v. v |\<in>| internal)) (W k1);
          (bw, k2) = blind_worlds k1
      in (actual |\<union>| bw, k2))"
| "calc (Diamond e) k =
     (let (internal, k1) = calc e k
      in (ffilter (\<lambda>w. fBex (R k1 w) (\<lambda>v. v |\<in>| internal)) (W k1), k1))"

text \<open>\<^verbatim>\<open>entails\<close>: \<^verbatim>\<open>sorted(self.W) == sorted(expression.calc(self))\<close>.\<close>

definition entails :: "kripke \<Rightarrow> expr \<Rightarrow> bool \<times> kripke" where
  "entails k expression =
     (let ws = sorted_list_of_fset (W k); (res, k1) = calc expression k
      in (ws = sorted_list_of_fset res, k1))"

text \<open>The set \<^verbatim>\<open>blind_worlds\<close> hands out in a given state.\<close>

definition blind_view :: "kripke \<Rightarrow> world fset" where
  "blind_view k = fst (blind_worlds k)"

text \<open>Two states that every evaluation treats alike: same valuation, worlds and relation,
  and the same answer from \<^verbatim>\<open>blind_worlds\<close>.\<close>

definition same_view :: "kripke \<Rightarrow> kripke \<Rightarrow> bool" where
  "same_view k k' = (V k = V k' \<and> W k = W k' \<and> R k = R k' \<and> blind_view k = blind_view k')"

text \<open>
  \<^verbatim>\<open>calc\<close> without the state: the same recursion, reading the set \<^verbatim>\<open>blind_worlds\<close> hands
  out. Lemma \<open>calc_sem\<close> shows that it is the set \<^verbatim>\<open>calc\<close> returns.
\<close>

fun sem :: "expr \<Rightarrow> kripke \<Rightarrow> world fset" where
  "sem (Var n) k = V k n"
| "sem (Constant b) k = (if b then W k else {||})"
| "sem (Not_e e) k = W k |-| sem e k"
| "sem (And l r) k = sem l k |\<inter>| sem r k"
| "sem (Or l r) k = sem l k |\<union>| sem r k"
| "sem (Implies l r) k = (W k |-| sem l k) |\<union>| (sem l k |\<inter>| sem r k)"
| "sem (Box e) k = ffilter (\<lambda>w. fBall (R k w) (\<lambda>v. v |\<in>| sem e k)) (W k) |\<union>| blind_view k"
| "sem (Diamond e) k = ffilter (\<lambda>w. fBex (R k w) (\<lambda>v. v |\<in>| sem e k)) (W k)"

text \<open>The worlds of \<^verbatim>\<open>W\<close> with no outgoing edge in the current state.\<close>

definition now_blind :: "kripke \<Rightarrow> world fset" where
  "now_blind k = ffilter (\<lambda>w. R k w = {||}) (W k)"

text \<open>Conditions on a model: no cached world has gained an edge since the cache was
  filled; the cache, the valuation sets and the targets of edges out of declared worlds
  hold declared worlds only.\<close>

definition cache_sound :: "kripke \<Rightarrow> bool" where
  "cache_sound k = (case cached_blind_worlds k of None \<Rightarrow> True | Some c \<Rightarrow> c |\<subseteq>| now_blind k)"

definition cache_declared :: "kripke \<Rightarrow> bool" where
  "cache_declared k = (case cached_blind_worlds k of None \<Rightarrow> True | Some c \<Rightarrow> c |\<subseteq>| W k)"

definition vals_declared :: "kripke \<Rightarrow> bool" where
  "vals_declared k = (\<forall>n. V k n |\<subseteq>| W k)"

definition edges_declared :: "kripke \<Rightarrow> bool" where
  "edges_declared k = fBall (W k) (\<lambda>w. R k w |\<subseteq>| W k)"

text \<open>The model without its undeclared worlds in valuations and without the edges that
  leave undeclared worlds.\<close>

definition declared_only :: "kripke \<Rightarrow> kripke" where
  "declared_only k = k\<lparr>V := (\<lambda>n. V k n |\<inter>| W k), R := (\<lambda>w. if w |\<in>| W k then R k w else {||})\<rparr>"

text \<open>The methods that change a model, as data, to speak about sequences of calls.\<close>

datatype mutation =
    Add_vals string "world list"
  | Add_val string world
  | Add_worlds "world list"
  | Add_world world
  | Add_transes "(world \<times> world) list"
  | Add_trans "world \<times> world"

fun mutate :: "mutation \<Rightarrow> kripke \<Rightarrow> kripke" where
  "mutate (Add_vals var ws) k = add_vals var ws k"
| "mutate (Add_val var w) k = add_val var w k"
| "mutate (Add_worlds ws) k = add_worlds ws k"
| "mutate (Add_world w) k = add_world w k"
| "mutate (Add_transes ts) k = add_transes ts k"
| "mutate (Add_trans t) k = add_trans t k"

text \<open>Concrete models, each built through the methods of the class.\<close>

definition scenario_1 :: kripke where
  "scenario_1 = add_val ''p'' ''w2'' (add_trans (''w1'', ''w2'') (add_worlds [''w1'', ''w2''] Kripke_init))"

definition scenario_2 :: kripke where
  "scenario_2 = add_world ''w1'' Kripke_init"

definition stale_model :: kripke where
  "stale_model = add_trans (''w1'', ''w1'') (snd (blind_worlds (add_world ''w1'' Kripke_init)))"

definition grown_model :: kripke where
  "grown_model = add_world ''w2'' (snd (blind_worlds (add_world ''w1'' Kripke_init)))"

definition undeclared_val_model :: kripke where
  "undeclared_val_model = add_val ''p'' ''u'' (add_world ''w'' Kripke_init)"

definition undeclared_edge_model :: kripke where
  "undeclared_edge_model = add_trans (''w'', ''u'') (add_world ''w'' Kripke_init)"

definition undeclared_inert_model :: kripke where
  "undeclared_inert_model =
     add_trans (''u'', ''w'') (add_vals ''p'' [''w'', ''u''] (add_worlds [''w'', ''x''] Kripke_init))"

definition undeclared_rhs_model :: kripke where
  "undeclared_rhs_model = add_val ''q'' ''u'' (add_world ''w'' Kripke_init)"

section \<open>The expression repository (data.py, create_expression and create_var_const)\<close>

text \<open>
  The repository hands out objects, and two objects with equal fields can be different
  objects, so here a node is an object of a heap: its identity is its index, new objects are
  appended and none is ever freed (the table \<^verbatim>\<open>instances\<close> keeps them alive). An object holds
  its class and the arguments its constructor stored. An argument is a string or an object;
  objects compare by identity, as \<^verbatim>\<open>LogicExpression\<close> defines no \<^verbatim>\<open>__eq__\<close>.

  A Python string is modelled by its UTF-8 bytes, so the non-ASCII operator symbols are
  byte sequences. \<^verbatim>\<open>lower\<close> and \<^verbatim>\<open>upper\<close> change the ASCII letters only; no code point outside
  ASCII lowercases to a letter of \<^verbatim>\<open>'true'\<close> or \<^verbatim>\<open>'false'\<close>, so the test in \<^verbatim>\<open>create_var_const\<close>
  is not affected.
\<close>

type_synonym ref = nat

datatype py_error =
    KeyError | TypeError | AttributeError | IndexError | AssertionError | RecursionError
  | ParseException

datatype cls = And_cls | Or_cls | Implies_cls | Not_cls | Box_cls | Diamond_cls | Var_cls | Constant_cls

datatype pyval = Str string | Obj ref

datatype ctor_args = Name string | Flag bool | Args "pyval list"

type_synonym node = "cls \<times> ctor_args"

record repo =
  instances :: "node \<rightharpoonup> ref"
  heap :: "node list"

definition empty_repo :: repo where
  "empty_repo = \<lparr> instances = Map.empty, heap = [] \<rparr>"

definition upper_case :: string where "upper_case = ''ABCDEFGHIJKLMNOPQRSTUVWXYZ''"
definition lower_case :: string where "lower_case = ''abcdefghijklmnopqrstuvwxyz''"

definition lower_char :: "char \<Rightarrow> char" where
  "lower_char c = (case map_of (zip upper_case lower_case) c of Some d \<Rightarrow> d | None \<Rightarrow> c)"

definition upper_char :: "char \<Rightarrow> char" where
  "upper_char c = (case map_of (zip lower_case upper_case) c of Some d \<Rightarrow> d | None \<Rightarrow> c)"

definition lower :: "string \<Rightarrow> string" where "lower s = map lower_char s"
definition upper :: "string \<Rightarrow> string" where "upper s = map upper_char s"

text \<open>The non-ASCII symbols of the source, in UTF-8: the operators for and, or, implies and
  not, the box, the diamond, top and bottom.\<close>

definition sym_and :: string where "sym_and = [CHR 0xE2, CHR 0x88, CHR 0xA7]"
definition sym_or :: string where "sym_or = [CHR 0xE2, CHR 0x88, CHR 0xA8]"
definition sym_implies :: string where "sym_implies = [CHR 0xE2, CHR 0x86, CHR 0x92]"
definition sym_not :: string where "sym_not = [CHR 0xC2, CHR 0xAC]"
definition sym_box :: string where "sym_box = [CHR 0xE2, CHR 0x98, CHR 0x90]"
definition sym_diamond :: string where "sym_diamond = [CHR 0xE2, CHR 0x97, CHR 0x87]"
definition sym_top :: string where "sym_top = [CHR 0xE2, CHR 0x8A, CHR 0xA4]"
definition sym_bottom :: string where "sym_bottom = [CHR 0xE2, CHR 0x8A, CHR 0xA5]"

text \<open>The class attribute \<^verbatim>\<open>symbols\<close> of each class, \<^verbatim>\<open>Constant.true_symbols\<close> and
  \<^verbatim>\<open>Constant.false_symbols\<close>, and the tables the module builds from them when it is loaded
  (a later \<^verbatim>\<open>update\<close> of \<^verbatim>\<open>operator_class\<close> would win over an earlier one).\<close>

fun symbols :: "cls \<Rightarrow> string list" where
  "symbols And_cls = [''and'', ''&&'', ''&'', ''^'', [CHR ''/'', CHR 0x5C], sym_and, ''*'']"
| "symbols Or_cls = [''or'', ''||'', ''|'', ''v'', [CHR 0x5C, CHR ''/''], sym_or, ''+'']"
| "symbols Implies_cls = [''implies'', ''->'', ''=>'', sym_implies]"
| "symbols Not_cls = [''not'', ''~'', sym_not, ''!'']"
| "symbols Box_cls = [sym_box, ''box'']"
| "symbols Diamond_cls = [sym_diamond, ''diamond'']"
| "symbols Var_cls = []"
| "symbols Constant_cls = [''true'', ''1'', ''false'', ''0'']"

definition true_symbols :: "string list" where
  "true_symbols = [''True'', ''true'', ''1'', sym_top]"

definition false_symbols :: "string list" where
  "false_symbols = [''False'', ''false'', ''0'', sym_bottom]"

definition infix_classes :: "cls list" where "infix_classes = [And_cls, Or_cls, Implies_cls]"
definition prefix_classes :: "cls list" where "prefix_classes = [Not_cls, Box_cls, Diamond_cls]"

definition operator_table :: "(string \<times> cls) list" where
  "operator_table = concat (map (\<lambda>c. map (\<lambda>s. (s, c)) (symbols c)) (infix_classes @ prefix_classes))"

definition operator_class :: "string \<rightharpoonup> cls" where
  "operator_class = map_of (rev operator_table)"

definition prefix_operators :: "string list" where
  "prefix_operators = concat (map symbols prefix_classes)"


text \<open>The constructors called through \<^verbatim>\<open>constructor(*kwargs)\<close>: a wrong number of arguments
  raises \<^verbatim>\<open>TypeError\<close>. \<^verbatim>\<open>operator_class\<close> holds the infix and prefix classes only, so the
  constructors of \<^verbatim>\<open>Var\<close> and \<^verbatim>\<open>Constant\<close> are never called this way.\<close>

fun construct :: "cls \<Rightarrow> pyval list \<Rightarrow> py_error + node" where
  "construct And_cls [l, r] = Inr (And_cls, Args [l, r])"
| "construct Or_cls [l, r] = Inr (Or_cls, Args [l, r])"
| "construct Implies_cls [l, r] = Inr (Implies_cls, Args [l, r])"
| "construct Not_cls [e] = Inr (Not_cls, Args [e])"
| "construct Box_cls [e] = Inr (Box_cls, Args [e])"
| "construct Diamond_cls [e] = Inr (Diamond_cls, Args [e])"
| "construct c kwargs = Inl TypeError"

text \<open>\<^verbatim>\<open>create_var_const\<close>: the class and argument chosen from the name, then the lookup in
  \<^verbatim>\<open>instances\<close>, with a new object stored on a miss.\<close>

definition var_const_key :: "string \<Rightarrow> node" where
  "var_const_key name =
     (if lower name \<in> set (symbols Constant_cls)
      then (Constant_cls, Flag (lower name \<in> set true_symbols))
      else (Var_cls, Name name))"

definition create_var_const :: "string \<Rightarrow> repo \<Rightarrow> ref \<times> repo" where
  "create_var_const name r =
     (let key = var_const_key name
      in case instances r key of
           Some expr \<Rightarrow> (expr, r)
         | None \<Rightarrow>
             (let expr = length (heap r)
              in (expr, \<lparr> instances = (instances r)(key \<mapsto> expr), heap = heap r @ [key] \<rparr>)))"

text \<open>\<^verbatim>\<open>create_expression\<close>. For the three pseudo-operators \<^verbatim>\<open>create_var_const(*kwargs)\<close> needs
  exactly one argument, and it must have a method \<^verbatim>\<open>lower\<close>. Otherwise
  \<^verbatim>\<open>operator_class[operator]\<close> raises \<^verbatim>\<open>KeyError\<close> for an unknown operator.\<close>

definition var_const_operators :: "pyval list" where
  "var_const_operators = [Str ''var'', Str ''const'', Str ''varconst'']"

definition create_expression ::
  "pyval \<Rightarrow> pyval list \<Rightarrow> repo \<Rightarrow> py_error + ref \<times> repo" where
  "create_expression operator kwargs r =
     (if operator \<in> set var_const_operators
      then (case kwargs of
              [Str name] \<Rightarrow> Inr (create_var_const name r)
            | [Obj x] \<Rightarrow> Inl AttributeError
            | _ \<Rightarrow> Inl TypeError)
      else (case (case operator of Str s \<Rightarrow> operator_class s | Obj x \<Rightarrow> None) of
              None \<Rightarrow> Inl KeyError
            | Some constructor \<Rightarrow>
                (case instances r (constructor, Args kwargs) of
                   Some expression \<Rightarrow> Inr (expression, r)
                 | None \<Rightarrow>
                     (case construct constructor kwargs of
                        Inl e \<Rightarrow> Inl e
                      | Inr obj \<Rightarrow>
                          (let expression = length (heap r)
                           in Inr (expression,
                                   \<lparr> instances = (instances r)((constructor, Args kwargs) \<mapsto> expression),
                                     heap = heap r @ [obj] \<rparr>))))))"

text \<open>Factory calls as data, the key (class and arguments) a call asks for, and sequences of
  calls; a call that raises leaves the table as it was.\<close>

datatype call = Create_expression pyval "pyval list" | Create_var_const string

fun perform :: "call \<Rightarrow> repo \<Rightarrow> py_error + ref \<times> repo" where
  "perform (Create_expression operator kwargs) r = create_expression operator kwargs r"
| "perform (Create_var_const name) r = Inr (create_var_const name r)"

fun node_key :: "call \<Rightarrow> node option" where
  "node_key (Create_var_const name) = Some (var_const_key name)"
| "node_key (Create_expression operator kwargs) =
     (if operator \<in> set var_const_operators
      then (case kwargs of [Str name] \<Rightarrow> Some (var_const_key name) | _ \<Rightarrow> None)
      else (case operator of
              Str s \<Rightarrow> map_option (\<lambda>c. (c, Args kwargs)) (operator_class s)
            | Obj x \<Rightarrow> None))"

definition after_call :: "call \<Rightarrow> repo \<Rightarrow> repo" where
  "after_call c r = (case perform c r of Inl e \<Rightarrow> r | Inr (x, r') \<Rightarrow> r')"

definition run_calls :: "call list \<Rightarrow> repo \<Rightarrow> repo" where
  "run_calls cs r = fold after_call cs r"

text \<open>What holds of the table in every state the two functions produce from the empty one:
  each entry points to a live object, and that object is the one the key describes.\<close>

definition repo_ok :: "repo \<Rightarrow> bool" where
  "repo_ok r = (\<forall>k e. instances r k = Some e \<longrightarrow> e < length (heap r) \<and> heap r ! e = k)"

text \<open>The tree of an object: its class and the trees of its children. A child is older than
  its parent, since it exists when the parent is constructed.\<close>

fun unary :: "cls \<Rightarrow> expr \<Rightarrow> expr option" where
  "unary Not_cls t = Some (Not_e t)"
| "unary Box_cls t = Some (Box t)"
| "unary Diamond_cls t = Some (Diamond t)"
| "unary c t = None"

fun binary :: "cls \<Rightarrow> expr \<Rightarrow> expr \<Rightarrow> expr option" where
  "binary And_cls l r = Some (And l r)"
| "binary Or_cls l r = Some (Or l r)"
| "binary Implies_cls l r = Some (Implies l r)"
| "binary c l r = None"

function tree_of :: "node list \<Rightarrow> ref \<Rightarrow> expr option" where
  "tree_of h e =
     (if e < length h then
        (case snd (h ! e) of
           Name n \<Rightarrow> (if fst (h ! e) = Var_cls then Some (Var n) else None)
         | Flag b \<Rightarrow> (if fst (h ! e) = Constant_cls then Some (Constant b) else None)
         | Args kids \<Rightarrow>
             (case kids of
                [Obj x] \<Rightarrow>
                  (if x < e
                   then (case tree_of h x of Some t \<Rightarrow> unary (fst (h ! e)) t | None \<Rightarrow> None)
                   else None)
              | [Obj l, Obj r] \<Rightarrow>
                  (if l < e \<and> r < e
                   then (case (tree_of h l, tree_of h r) of
                           (Some t, Some u) \<Rightarrow> binary (fst (h ! e)) t u
                         | _ \<Rightarrow> None)
                   else None)
              | _ \<Rightarrow> None))
      else None)"
  by pat_completeness auto
termination by (relation "measure snd") auto

definition base_repo :: repo where
  "base_repo = run_calls [Create_var_const ''a'', Create_var_const ''b''] empty_repo"

section \<open>The parser (parser.py)\<close>

text \<open>
  The grammar is built from pyparsing elements; each is modelled as pyparsing documents it.
  A parser reads at a position of the input (here: the rest of the input) and returns
  tokens and the new position, or raises \<^verbatim>\<open>ParseException\<close>. Every terminal skips leading
  whitespace. A parse action runs when its element has matched and replaces the tokens by
  its result; its calls of the repository stay done when a later element fails, so the
  repository is threaded through failures too. \<^verbatim>\<open>ZeroOrMore\<close> and \<^verbatim>\<open>|\<close> catch
  \<^verbatim>\<open>ParseException\<close> and \<^verbatim>\<open>IndexError\<close>; any other exception goes through.

  The grammar is recursive through \<^verbatim>\<open>nest\<close>, and the repetitions loop, so the mutually
  recursive functions carry fuel \<open>n\<close>: one unit per iteration of a repetition and per level
  of parentheses. \<open>Starved\<close> is the model running out of fuel, not a behaviour of the code;
  lemma \<open>well_behaved\<close> shows that with more fuel than characters it never happens.

  The recursion of the code is Python's: every level of parentheses is a chain of calls
  inside pyparsing, and Python raises \<^verbatim>\<open>RecursionError\<close> when the chain is longer than the
  interpreter's recursion limit; pyparsing does not catch it. How many levels fit depends
  on the interpreter and on the version of pyparsing, so the number is the parameter \<open>d\<close>
  of the grammar functions: \<open>nest\<close> counts it down and raises \<^verbatim>\<open>RecursionError\<close> at a
  parenthesis opened when no level is left.

  A string is the list of the bytes of its UTF-8 encoding. On ASCII text that is the
  Python string itself, character by character.
\<close>

datatype 'a run = Returns 'a repo | Raises py_error repo | Starved

type_synonym parsed = "(pyval list \<times> string) run"

text \<open>pyparsing's default whitespace, \<^verbatim>\<open>alphas\<close> and the characters of \<^verbatim>\<open>Word(alphas + '_')\<close>.\<close>

definition whitespace :: string where
  "whitespace = [CHR '' '', CHR 0x0A, CHR 0x09, CHR 0x0D]"

definition skip_ws :: "string \<Rightarrow> string" where
  "skip_ws s = dropWhile (\<lambda>c. c \<in> set whitespace) s"

definition alphas :: string where "alphas = upper_case @ lower_case"

definition word_chars :: string where "word_chars = alphas @ ''_''"

definition caught :: "py_error \<Rightarrow> bool" where
  "caught e = (e = ParseException \<or> e = IndexError)"

text \<open>
  \<^verbatim>\<open>oneOf(symbols, caseless=True)\<close> at a position where whitespace is already skipped: the
  first listed symbol that matches without regard to case, returned as listed. pyparsing
  moves a symbol before another one only when the other one is a proper prefix of it and
  stands earlier; that is the case in none of the lists of the grammar. Case is folded on
  the ASCII letters only. Python also folds letters outside ASCII onto ASCII letters
  (U+017F onto s, U+0130 and U+0131 onto i, U+212A onto k), so that \<^verbatim>\<open>implie\<close> followed
  by U+017F matches \<^verbatim>\<open>implies\<close> in the code and not here: the model speaks for the code on
  input without such letters, and the theorems about \<open>parse\<close> on all inputs are stated
  for ASCII input.
\<close>

fun one_of :: "string list \<Rightarrow> string \<Rightarrow> (string \<times> string) option" where
  "one_of [] s = None"
| "one_of (symbol # syms) s =
     (if upper (take (length symbol) s) = upper symbol then Some (symbol, drop (length symbol) s)
      else one_of syms s)"

text \<open>\<^verbatim>\<open>Suppress(l)\<close>: the literal, after whitespace; its token is dropped.\<close>

definition literal :: "string \<Rightarrow> string \<Rightarrow> string option" where
  "literal l s = (let s' = skip_ws s in if take (length l) s' = l then Some (drop (length l) s') else None)"

text \<open>\<^verbatim>\<open>varconst = Word(alphas + '_').setParseAction(lambda t: create_var_const(t[0]))\<close>.\<close>

definition varconst :: "string \<Rightarrow> repo \<Rightarrow> parsed" where
  "varconst s r =
     (let s' = skip_ws s; t = takeWhile (\<lambda>c. c \<in> set word_chars) s'
      in if t = [] then Raises ParseException r
         else (let (e, r') = create_var_const t r
               in Returns ([Obj e], dropWhile (\<lambda>c. c \<in> set word_chars) s') r'))"

text \<open>\<^verbatim>\<open>parse_prefix_op\<close>: the tokens reversed, the first one kept, the others applied to it as
  operators, one after the other.\<close>

fun prefix_loop :: "pyval list \<Rightarrow> pyval \<Rightarrow> repo \<Rightarrow> pyval run" where
  "prefix_loop [] res r = Returns res r"
| "prefix_loop (t # ts) res r =
     (case create_expression t [res] r of
        Inl e \<Rightarrow> Raises e r
      | Inr (x, r') \<Rightarrow> prefix_loop ts (Obj x) r')"

definition parse_prefix_op :: "pyval list \<Rightarrow> repo \<Rightarrow> pyval run" where
  "parse_prefix_op toks r =
     (case rev toks of
        [] \<Rightarrow> Raises AssertionError r
      | t # ts \<Rightarrow> prefix_loop ts t r)"

text \<open>\<^verbatim>\<open>parse_infix_op\<close>: \<^verbatim>\<open>toks[1::2]\<close> and \<^verbatim>\<open>toks[2::2]\<close> are every other token from the second
  and from the third on; \<^verbatim>\<open>zip\<close> stops with the shorter list.\<close>

fun every_other :: "'a list \<Rightarrow> 'a list" where
  "every_other [] = []"
| "every_other [x] = [x]"
| "every_other (x # y # zs) = x # every_other zs"

fun infix_loop :: "(pyval \<times> pyval) list \<Rightarrow> pyval \<Rightarrow> repo \<Rightarrow> pyval run" where
  "infix_loop [] left r = Returns left r"
| "infix_loop ((op, right) # rest) left r =
     (case create_expression op [left, right] r of
        Inl e \<Rightarrow> Raises e r
      | Inr (x, r') \<Rightarrow> infix_loop rest (Obj x) r')"

definition parse_infix_op :: "pyval list \<Rightarrow> repo \<Rightarrow> pyval run" where
  "parse_infix_op toks r =
     (case toks of
        [] \<Rightarrow> Raises IndexError r
      | left # _ \<Rightarrow> infix_loop (zip (every_other (drop 1 toks)) (every_other (drop 2 toks))) left r)"

text \<open>A parse action applied to the tokens of its element.\<close>

definition act :: "(pyval list \<Rightarrow> repo \<Rightarrow> pyval run) \<Rightarrow> pyval list \<Rightarrow> string \<Rightarrow> repo \<Rightarrow> parsed" where
  "act f toks s r =
     (case f toks r of
        Returns v r' \<Rightarrow> Returns ([v], s) r'
      | Raises e r' \<Rightarrow> Raises e r'
      | Starved \<Rightarrow> Starved)"

text \<open>\<^verbatim>\<open>ZeroOrMore(prefix_op)\<close>.\<close>

function prefix_more :: "string \<Rightarrow> pyval list \<times> string" where
  "prefix_more s =
     (case one_of prefix_operators (skip_ws s) of
        None \<Rightarrow> ([], s)
      | Some (op, s1) \<Rightarrow> (let (ops, s2) = prefix_more s1 in (Str op # ops, s2)))"
  by pat_completeness auto
termination
proof (relation "measure length")
  fix s x2 x y
  assume a: "one_of prefix_operators (skip_ws s) = Some x2" "(x, y) = x2"
  have shorter: "length s1 < length t"
    if "one_of syms t = Some (symbol, s1)" "[] \<notin> set syms" for syms t symbol s1
    using that
  proof (induction syms)
    case Nil
    then show ?case by simp
  next
    case (Cons c syms)
    show ?case
    proof (cases "upper (take (length c) t) = upper c")
      case True
      then have "length (take (length c) t) = length c"
        unfolding upper_def by (rule map_eq_imp_length_eq)
      then have "length c \<le> length t" by simp
      moreover from Cons.prems(2) have "0 < length c" by auto
      ultimately have "length t - length c < length t" by linarith
      moreover from Cons.prems(1) True have "s1 = drop (length c) t" by auto
      ultimately show ?thesis by simp
    next
      case False
      with Cons show ?thesis by simp
    qed
  qed
  have "[] \<notin> set prefix_operators"
    by (simp add: prefix_operators_def prefix_classes_def sym_not_def sym_box_def sym_diamond_def)
  with a shorter[of prefix_operators "skip_ws s" x y]
  have "length y < length (skip_ws s)" by simp
  also have "\<dots> \<le> length s" by (simp add: skip_ws_def length_dropWhile_le)
  finally show "(y, s) \<in> measure length" by simp
qed simp

text \<open>
  The productions of \<^verbatim>\<open>_bnf\<close>. \<open>impl_more\<close>, \<open>or_more\<close> and \<open>and_more\<close> are the three
  \<^verbatim>\<open>ZeroOrMore(symbol + operand)\<close>: an iteration that fails gives back the position before
  it. \<open>nest\<close> is \<^verbatim>\<open>Suppress('(') + expression + Suppress(')')\<close>; it is where the code
  recurses, so it is where the levels \<open>d\<close> are counted.
\<close>

function expression :: "nat \<Rightarrow> nat \<Rightarrow> string \<Rightarrow> repo \<Rightarrow> parsed"
  and impl_more :: "nat \<Rightarrow> nat \<Rightarrow> string \<Rightarrow> repo \<Rightarrow> parsed"
  and or_expr :: "nat \<Rightarrow> nat \<Rightarrow> string \<Rightarrow> repo \<Rightarrow> parsed"
  and or_more :: "nat \<Rightarrow> nat \<Rightarrow> string \<Rightarrow> repo \<Rightarrow> parsed"
  and and_expr :: "nat \<Rightarrow> nat \<Rightarrow> string \<Rightarrow> repo \<Rightarrow> parsed"
  and and_more :: "nat \<Rightarrow> nat \<Rightarrow> string \<Rightarrow> repo \<Rightarrow> parsed"
  and prefix_expr :: "nat \<Rightarrow> nat \<Rightarrow> string \<Rightarrow> repo \<Rightarrow> parsed"
  and atom :: "nat \<Rightarrow> nat \<Rightarrow> string \<Rightarrow> repo \<Rightarrow> parsed"
  and nest :: "nat \<Rightarrow> nat \<Rightarrow> string \<Rightarrow> repo \<Rightarrow> parsed"
where
  "expression d n s r =
     (case or_expr d n s r of
        Returns (toks, s1) r1 \<Rightarrow>
          (case impl_more d n s1 r1 of
             Returns (others, s2) r2 \<Rightarrow> act parse_infix_op (toks @ others) s2 r2
           | Raises e r2 \<Rightarrow> Raises e r2
           | Starved \<Rightarrow> Starved)
      | Raises e r1 \<Rightarrow> Raises e r1
      | Starved \<Rightarrow> Starved)"
| "impl_more d n s r =
     (case one_of (symbols Implies_cls) (skip_ws s) of
        None \<Rightarrow> Returns ([], s) r
      | Some (op, s1) \<Rightarrow>
          (case n of
             0 \<Rightarrow> Starved
           | Suc m \<Rightarrow>
               (case or_expr d m s1 r of
                  Returns (toks, s2) r2 \<Rightarrow>
                    (case impl_more d m s2 r2 of
                       Returns (others, s3) r3 \<Rightarrow> Returns (Str op # toks @ others, s3) r3
                     | Raises e r3 \<Rightarrow> Raises e r3
                     | Starved \<Rightarrow> Starved)
                | Raises e r2 \<Rightarrow> (if caught e then Returns ([], s) r2 else Raises e r2)
                | Starved \<Rightarrow> Starved)))"
| "or_expr d n s r =
     (case and_expr d n s r of
        Returns (toks, s1) r1 \<Rightarrow>
          (case or_more d n s1 r1 of
             Returns (others, s2) r2 \<Rightarrow> act parse_infix_op (toks @ others) s2 r2
           | Raises e r2 \<Rightarrow> Raises e r2
           | Starved \<Rightarrow> Starved)
      | Raises e r1 \<Rightarrow> Raises e r1
      | Starved \<Rightarrow> Starved)"
| "or_more d n s r =
     (case one_of (symbols Or_cls) (skip_ws s) of
        None \<Rightarrow> Returns ([], s) r
      | Some (op, s1) \<Rightarrow>
          (case n of
             0 \<Rightarrow> Starved
           | Suc m \<Rightarrow>
               (case and_expr d m s1 r of
                  Returns (toks, s2) r2 \<Rightarrow>
                    (case or_more d m s2 r2 of
                       Returns (others, s3) r3 \<Rightarrow> Returns (Str op # toks @ others, s3) r3
                     | Raises e r3 \<Rightarrow> Raises e r3
                     | Starved \<Rightarrow> Starved)
                | Raises e r2 \<Rightarrow> (if caught e then Returns ([], s) r2 else Raises e r2)
                | Starved \<Rightarrow> Starved)))"
| "and_expr d n s r =
     (case prefix_expr d n s r of
        Returns (toks, s1) r1 \<Rightarrow>
          (case and_more d n s1 r1 of
             Returns (others, s2) r2 \<Rightarrow> act parse_infix_op (toks @ others) s2 r2
           | Raises e r2 \<Rightarrow> Raises e r2
           | Starved \<Rightarrow> Starved)
      | Raises e r1 \<Rightarrow> Raises e r1
      | Starved \<Rightarrow> Starved)"
| "and_more d n s r =
     (case one_of (symbols And_cls) (skip_ws s) of
        None \<Rightarrow> Returns ([], s) r
      | Some (op, s1) \<Rightarrow>
          (case n of
             0 \<Rightarrow> Starved
           | Suc m \<Rightarrow>
               (case prefix_expr d m s1 r of
                  Returns (toks, s2) r2 \<Rightarrow>
                    (case and_more d m s2 r2 of
                       Returns (others, s3) r3 \<Rightarrow> Returns (Str op # toks @ others, s3) r3
                     | Raises e r3 \<Rightarrow> Raises e r3
                     | Starved \<Rightarrow> Starved)
                | Raises e r2 \<Rightarrow> (if caught e then Returns ([], s) r2 else Raises e r2)
                | Starved \<Rightarrow> Starved)))"
| "prefix_expr d n s r =
     (case prefix_more s of
        (ops, s1) \<Rightarrow>
          (case atom d n s1 r of
             Returns (toks, s2) r2 \<Rightarrow> act parse_prefix_op (ops @ toks) s2 r2
           | Raises e r2 \<Rightarrow> Raises e r2
           | Starved \<Rightarrow> Starved))"
| "atom d n s r =
     (case varconst s r of
        Returns p r1 \<Rightarrow> Returns p r1
      | Raises e r1 \<Rightarrow> (if caught e then nest d n s r1 else Raises e r1)
      | Starved \<Rightarrow> Starved)"
| "nest d n s r =
     (case literal ''('' s of
        None \<Rightarrow> Raises ParseException r
      | Some s1 \<Rightarrow>
          (case d of
             0 \<Rightarrow> Raises RecursionError r
           | Suc d' \<Rightarrow>
               (case n of
                  0 \<Rightarrow> Starved
                | Suc m \<Rightarrow>
                    (case expression d' m s1 r of
                       Returns (toks, s2) r2 \<Rightarrow>
                         (case literal '')'' s2 of
                            None \<Rightarrow> Raises ParseException r2
                          | Some s3 \<Rightarrow> Returns (toks, s3) r2)
                     | Raises e r2 \<Rightarrow> Raises e r2
                     | Starved \<Rightarrow> Starved))))"
  by pat_completeness auto
termination
  by (relation "measure (\<lambda>x. case x of
        Inl (Inl (Inl (d, n, s, r))) \<Rightarrow> 9 * n + 8
      | Inl (Inl (Inr (d, n, s, r))) \<Rightarrow> 9 * n + 7
      | Inl (Inr (Inl (d, n, s, r))) \<Rightarrow> 9 * n + 6
      | Inl (Inr (Inr (d, n, s, r))) \<Rightarrow> 9 * n + 5
      | Inr (Inl (Inl (d, n, s, r))) \<Rightarrow> 9 * n + 4
      | Inr (Inl (Inr (d, n, s, r))) \<Rightarrow> 9 * n + 3
      | Inr (Inr (Inl (d, n, s, r))) \<Rightarrow> 9 * n + 2
      | Inr (Inr (Inr (Inl (d, n, s, r)))) \<Rightarrow> 9 * n + 1
      | Inr (Inr (Inr (Inr (d, n, s, r)))) \<Rightarrow> 9 * n)") auto



definition raised :: "'a run \<Rightarrow> py_error option" where
  "raised res = (case res of Raises e r \<Rightarrow> Some e | _ \<Rightarrow> None)"

text \<open>A token list of operands joined by operators, and the left fold of a chain of
  operators and operand trees, as the specification describes it.\<close>

definition interleave :: "(pyval \<times> pyval) list \<Rightarrow> pyval list" where
  "interleave steps = concat (map (\<lambda>(op, e). [op, e]) steps)"

fun left_fold :: "expr \<Rightarrow> (string \<times> expr) list \<Rightarrow> expr option" where
  "left_fold t [] = Some t"
| "left_fold t ((op, u) # rest) =
     (case operator_class op of
        None \<Rightarrow> None
      | Some c \<Rightarrow> (case binary c t u of None \<Rightarrow> None | Some t' \<Rightarrow> left_fold t' rest))"







definition follows :: "parsed \<Rightarrow> parsed \<Rightarrow> bool" where
  "follows res out =
     ((\<exists>r'. res = Raises ParseException r' \<and> out = Raises ParseException r')
      \<or> (\<exists>x s1 r1 y s2 r2. res = Returns ([Obj x], s1) r1 \<and> out = Returns ([Obj y], s2) r2
            \<and> suffix s2 s1))"










section \<open>What evaluation does to the model\<close>

lemma blind_worlds_fields:
  "V (snd (blind_worlds k)) = V k" "W (snd (blind_worlds k)) = W k"
  "R (snd (blind_worlds k)) = R k"
  by (simp_all add: blind_worlds_def Let_def split: option.split)

lemma blind_worlds_cached:
  "cached_blind_worlds (snd (blind_worlds k)) = Some (blind_view k)"
  by (simp add: blind_view_def blind_worlds_def Let_def split: option.split)

lemma blind_view_after [simp]: "blind_view (snd (blind_worlds k)) = blind_view k"
  by (simp add: blind_view_def blind_worlds_def Let_def split: option.split)

lemma same_view_refl [simp]: "same_view k k" by (simp add: same_view_def)

lemma same_view_blind: "same_view k k' \<Longrightarrow> same_view (snd (blind_worlds k)) (snd (blind_worlds k'))"
  by (simp add: same_view_def blind_worlds_fields)

lemma same_view_blind_self: "same_view k (snd (blind_worlds k))"
  by (simp add: same_view_def blind_worlds_fields)

lemma calc_same_view:
  "same_view k k' \<Longrightarrow> fst (calc e k) = fst (calc e k') \<and> same_view (snd (calc e k)) (snd (calc e k'))"
proof (induction e arbitrary: k k')
  case (Var n) then show ?case by (simp add: same_view_def)
next
  case (Constant b) then show ?case by (simp add: same_view_def)
next
  case (Not_e e)
  from Not_e.IH[OF Not_e.prems] show ?case
    by (auto simp: split_beta same_view_def)
next
  case (Box e)
  from Box.IH[OF Box.prems] show ?case
    by (auto simp: split_beta Let_def same_view_def blind_worlds_fields blind_view_def[symmetric])
next
  case (Diamond e)
  from Diamond.IH[OF Diamond.prems] show ?case
    by (auto simp: split_beta Let_def same_view_def)
next
  case (And l r)
  from And.IH(1)[OF And.prems] have 1: "fst (calc l k) = fst (calc l k')" "same_view (snd (calc l k)) (snd (calc l k'))" by auto
  from And.IH(2)[OF 1(2)] 1(1) show ?case by (simp add: split_beta)
next
  case (Or l r)
  from Or.IH(1)[OF Or.prems] have 1: "fst (calc l k) = fst (calc l k')" "same_view (snd (calc l k)) (snd (calc l k'))" by auto
  from Or.IH(2)[OF 1(2)] 1(1) show ?case by (simp add: split_beta)
next
  case (Implies l r)
  from Implies.IH(1)[OF Implies.prems] have 1: "fst (calc l k) = fst (calc l k')" "same_view (snd (calc l k)) (snd (calc l k'))" by auto
  from Implies.IH(2)[OF 1(2)] 1 show ?case by (simp add: split_beta Let_def same_view_def)
qed

lemma calc_keeps_view: "same_view k (snd (calc e k))"
proof (induction e arbitrary: k)
  case (Box e)
  have "same_view k (snd (calc e k))" by (rule Box.IH)
  then show ?case by (simp add: split_beta Let_def same_view_def blind_worlds_fields)
next
  case (And l r)
  from And.IH(1)[of k] And.IH(2)[of "snd (calc l k)"] show ?case
    by (simp add: split_beta same_view_def)
next
  case (Or l r)
  from Or.IH(1)[of k] Or.IH(2)[of "snd (calc l k)"] show ?case
    by (simp add: split_beta same_view_def)
next
  case (Implies l r)
  from Implies.IH(1)[of k] Implies.IH(2)[of "snd (calc l k)"] show ?case
    by (simp add: split_beta Let_def same_view_def)
qed (simp_all add: split_beta Let_def same_view_def)

lemma calc_after: "fst (calc e (snd (calc e' k))) = fst (calc e k)"
  using calc_same_view[OF calc_keeps_view[of k e'], of e] by simp

lemma sorted_list_of_fset_inj: "sorted_list_of_fset A = sorted_list_of_fset B \<Longrightarrow> A = B"
  by (metis sorted_list_of_fset_simps(2))

lemma calc_fields: "V (snd (calc e k)) = V k" "W (snd (calc e k)) = W k" "R (snd (calc e k)) = R k"
  "blind_view (snd (calc e k)) = blind_view k"
  using calc_keeps_view[of k e] by (simp_all add: same_view_def)

lemma sem_after: "sem e (snd (calc e' k)) = sem e k"
  by (induction e) (simp_all add: calc_fields)

lemma calc_sem: "fst (calc e k) = sem e k"
  by (induction e arbitrary: k)
     (simp_all add: split_beta Let_def calc_fields sem_after blind_view_def[symmetric])

lemma blind_view_cases:
  "blind_view k = (case cached_blind_worlds k of None \<Rightarrow> now_blind k | Some c \<Rightarrow> c)"
  by (simp add: blind_view_def blind_worlds_def now_blind_def Let_def split: option.split)

lemma cache_sound_view: "cache_sound k \<Longrightarrow> blind_view k |\<subseteq>| now_blind k"
  by (simp add: cache_sound_def blind_view_cases split: option.splits)

lemma cache_declared_view: "cache_declared k \<Longrightarrow> blind_view k |\<subseteq>| W k"
  by (auto simp add: cache_declared_def blind_view_cases now_blind_def split: option.splits)

lemma now_blind_box: "now_blind k |\<subseteq>| ffilter (\<lambda>w. fBall (R k w) P) (W k)"
  by (auto simp: now_blind_def)

lemmas model_defs = Kripke_init_def add_val_def add_vals_def add_world_def add_worlds_def add_trans_def
  blind_worlds_def Let_def

lemma add_transes_cached [simp]: "cached_blind_worlds (add_transes ts k) = cached_blind_worlds k"
  by (induction ts k rule: add_transes.induct) simp_all

lemma add_transes_W [simp]: "W (add_transes ts k) = W k"
  by (induction ts k rule: add_transes.induct) simp_all

lemma mutate_cached [simp]: "cached_blind_worlds (mutate m k) = cached_blind_worlds k"
  by (cases m) (simp_all add: add_vals_def add_val_def add_worlds_def add_world_def add_trans_def)

lemma mutate_W: "W k |\<subseteq>| W (mutate m k)"
  by (cases m) (auto simp add: add_vals_def add_val_def add_worlds_def add_world_def add_trans_def)

lemma fold_mutate_cached [simp]:
  "cached_blind_worlds (fold mutate ms k) = cached_blind_worlds k"
  by (induction ms arbitrary: k) simp_all

lemma blind_view_cached: "cached_blind_worlds k = Some c \<Longrightarrow> blind_view k = c"
  by (simp add: blind_view_cases)

lemma sem_declared: "vals_declared k \<Longrightarrow> cache_declared k \<Longrightarrow> sem e k |\<subseteq>| W k"
proof (induction e)
  case (Var n) then show ?case by (simp add: vals_declared_def)
next
  case (Box e) then show ?case using cache_declared_view[of k] by auto
qed auto

lemma declared_only_fields:
  "W (declared_only k) = W k" "blind_view (declared_only k) = blind_view k"
  "w |\<in>| W k \<Longrightarrow> R (declared_only k) w = R k w"
  "V (declared_only k) n = V k n |\<inter>| W k"
proof -
  have "now_blind (declared_only k) = now_blind k"
    by (rule fset_eqI) (auto simp add: declared_only_def now_blind_def)
  then show "blind_view (declared_only k) = blind_view k"
    by (simp add: blind_view_cases declared_only_def split: option.split)
qed (simp_all add: declared_only_def)

lemma sem_declared_only:
  assumes "edges_declared k" and "w |\<in>| W k"
  shows "w |\<in>| sem e k \<longleftrightarrow> w |\<in>| sem e (declared_only k)"
  using assms(2)
proof (induction e arbitrary: w)
  case (Box e)
  have "fBall (R k w) (\<lambda>v. v |\<in>| sem e k) \<longleftrightarrow> fBall (R k w) (\<lambda>v. v |\<in>| sem e (declared_only k))"
    using assms(1) Box.prems Box.IH unfolding edges_declared_def by blast
  with Box.prems show ?case by (simp add: declared_only_fields)
next
  case (Diamond e)
  have "fBex (R k w) (\<lambda>v. v |\<in>| sem e k) \<longleftrightarrow> fBex (R k w) (\<lambda>v. v |\<in>| sem e (declared_only k))"
    using assms(1) Diamond.prems Diamond.IH unfolding edges_declared_def by blast
  with Diamond.prems show ?case by (simp add: declared_only_fields)
qed (simp_all add: declared_only_fields)

lemma calc_cached:
  "cached_blind_worlds (snd (calc e k)) = cached_blind_worlds k
   \<or> cached_blind_worlds (snd (calc e k)) = Some (blind_view k)"
proof (induction e arbitrary: k)
  case (Box e)
  show ?case using blind_worlds_cached[of "snd (calc e k)"]
    by (simp add: split_beta Let_def calc_fields)
next
  case (And l r)
  from And.IH(1)[of k] And.IH(2)[of "snd (calc l k)"] show ?case
    by (auto simp: split_beta calc_fields)
next
  case (Or l r)
  from Or.IH(1)[of k] Or.IH(2)[of "snd (calc l k)"] show ?case
    by (auto simp: split_beta calc_fields)
next
  case (Implies l r)
  from Implies.IH(1)[of k] Implies.IH(2)[of "snd (calc l k)"] show ?case
    by (auto simp: split_beta Let_def calc_fields)
qed (simp_all add: split_beta)

lemma cache_declared_built:
  "cache_declared Kripke_init"
  "cache_declared k \<Longrightarrow> cache_declared (mutate m k)"
  "cache_declared k \<Longrightarrow> cache_declared (snd (blind_worlds k))"
  "cache_declared k \<Longrightarrow> cache_declared (snd (calc e k))"
proof -
  show "cache_declared Kripke_init" by (simp add: cache_declared_def Kripke_init_def)
  show "cache_declared (mutate m k)" if "cache_declared k"
    using that mutate_W[of k m] by (auto simp: cache_declared_def split: option.splits)
  show "cache_declared (snd (blind_worlds k))" if "cache_declared k"
    using cache_declared_view[OF that]
    by (simp add: cache_declared_def blind_worlds_cached blind_worlds_fields)
  show "cache_declared (snd (calc e k))" if "cache_declared k"
    using calc_cached[of e k] cache_declared_view[OF that] that
    by (auto simp: cache_declared_def calc_fields split: option.splits)
qed

section \<open>The repository table and its objects\<close>


lemma repo_ok_empty: "repo_ok empty_repo"
  by (simp add: repo_ok_def empty_repo_def)

lemma intern_ok:
  assumes "repo_ok r" and "instances r k = None"
  shows "repo_ok \<lparr> instances = (instances r)(k \<mapsto> length (heap r)), heap = heap r @ [k] \<rparr>"
    and "instances r \<subseteq>\<^sub>m (instances r)(k \<mapsto> length (heap r))"
  using assms by (auto simp: repo_ok_def nth_append map_le_def less_Suc_eq)

lemma create_var_const_ok:
  assumes "repo_ok r" and "create_var_const name r = (x, r')"
  shows "repo_ok r' \<and> instances r' (var_const_key name) = Some x \<and> instances r \<subseteq>\<^sub>m instances r'"
proof (cases "instances r (var_const_key name)")
  case None
  with assms(2) have r': "r' = \<lparr> instances = (instances r)(var_const_key name \<mapsto> length (heap r)),
      heap = heap r @ [var_const_key name] \<rparr>" and x: "x = length (heap r)"
    by (auto simp: create_var_const_def Let_def)
  show ?thesis using intern_ok[OF assms(1) None] by (simp add: r' x)
next
  case (Some e)
  with assms show ?thesis by (auto simp: create_var_const_def Let_def)
qed

lemma construct_key: "construct c kwargs = Inr obj \<Longrightarrow> obj = (c, Args kwargs)"
  by (induction c kwargs rule: construct.induct) auto

lemma create_expression_var:
  "operator \<in> set var_const_operators \<Longrightarrow>
   create_expression operator kwargs r =
     (case kwargs of [Str name] \<Rightarrow> Inr (create_var_const name r)
      | [Obj x] \<Rightarrow> Inl AttributeError | _ \<Rightarrow> Inl TypeError)"
  unfolding create_expression_def by (simp only: if_True)

lemma create_expression_var_ok:
  assumes "operator \<in> set var_const_operators"
    and "create_expression operator kwargs r = Inr (x, r')"
  obtains name where "kwargs = [Str name]" and "create_var_const name r = (x, r')"
proof -
  from assms have *: "(case kwargs of [Str name] \<Rightarrow> Inr (create_var_const name r)
      | [Obj x] \<Rightarrow> Inl AttributeError | _ \<Rightarrow> Inl TypeError) = Inr (x, r')"
    by (simp only: create_expression_var)
  then show ?thesis using that
    by (cases kwargs; cases "hd kwargs"; cases "tl kwargs") simp_all
qed

lemma create_expression_op:
  "operator \<notin> set var_const_operators \<Longrightarrow>
   create_expression operator kwargs r =
     (case (case operator of Str s \<Rightarrow> operator_class s | Obj x \<Rightarrow> None) of
              None \<Rightarrow> Inl KeyError
            | Some constructor \<Rightarrow>
                (case instances r (constructor, Args kwargs) of
                   Some found \<Rightarrow> Inr (found, r)
                 | None \<Rightarrow>
                     (case construct constructor kwargs of
                        Inl e \<Rightarrow> Inl e
                      | Inr obj \<Rightarrow>
                          (let found = length (heap r)
                           in Inr (found,
                                   \<lparr> instances = (instances r)((constructor, Args kwargs) \<mapsto> found),
                                     heap = heap r @ [obj] \<rparr>)))))"
  unfolding create_expression_def by (simp only: if_False)

lemma create_expression_var_case:
  assumes "repo_ok r" and "perform c r = Inr (x, r')" "c = Create_expression operator kwargs"
   "operator \<in> set var_const_operators" 
  shows "repo_ok r' \<and> (\<exists>k. node_key c = Some k \<and> instances r' k = Some x)
         \<and> instances r \<subseteq>\<^sub>m instances r'"
proof -
    from assms obtain name where k: "kwargs = [Str name]"
      and cv: "create_var_const name r = (x, r')"
      by (auto elim: create_expression_var_ok)
    have nk: "node_key c = Some (var_const_key name)" using assms(3,4) k by simp
    from create_var_const_ok[OF assms(1) cv] nk show ?thesis by blast
qed

lemma create_expression_op_case:
  assumes "repo_ok r" and ce: "create_expression operator kwargs r = Inr (x, r')" and c: "c = Create_expression operator kwargs"
   and False: "operator \<notin> set var_const_operators" 
  shows "repo_ok r' \<and> (\<exists>k. node_key c = Some k \<and> instances r' k = Some x)
         \<and> instances r \<subseteq>\<^sub>m instances r'"
proof -
    from ce False obtain s constructor where op: "operator = Str s"
      and oc: "operator_class s = Some constructor"
      by (auto simp: create_expression_op split: pyval.splits option.splits)
    let ?k = "(constructor, Args kwargs)"
    have nk: "node_key c = Some ?k" using False op oc c by simp
    have ce': "(case instances r ?k of
                   Some found \<Rightarrow> Inr (found, r)
                 | None \<Rightarrow>
                     (case construct constructor kwargs of
                        Inl e \<Rightarrow> Inl e
                      | Inr obj \<Rightarrow>
                          (let found = length (heap r)
                           in Inr (found,
                                   \<lparr> instances = (instances r)(?k \<mapsto> found),
                                     heap = heap r @ [obj] \<rparr>)))) = Inr (x, r')"
      using ce False op oc by (simp add: create_expression_op)
    show ?thesis
    proof (cases "instances r ?k")
      case (Some e)
      with ce' have "x = e" "r' = r" by simp_all
      with Some nk assms(1) show ?thesis by simp
    next
      case None
      show ?thesis
      proof (cases "construct constructor kwargs")
        case (Inl e)
        with ce' None show ?thesis by simp
      next
        case (Inr obj)
        from construct_key[OF Inr] have obj: "obj = ?k" .
        from ce' None Inr have x: "x = length (heap r)"
          and r': "r' = \<lparr> instances = (instances r)(?k \<mapsto> length (heap r)), heap = heap r @ [obj] \<rparr>"
          by (auto simp add: Let_def)
        from intern_ok[OF assms(1) None] nk r' x obj show ?thesis by simp
      qed
    qed
qed
lemma perform_ok:
  assumes "repo_ok r" and "perform c r = Inr (x, r')"
  shows "repo_ok r' \<and> (\<exists>k. node_key c = Some k \<and> instances r' k = Some x)
         \<and> instances r \<subseteq>\<^sub>m instances r'"
proof (cases c)
  case (Create_var_const name)
  with assms show ?thesis using create_var_const_ok[of r name x r'] by simp
next
  case (Create_expression operator kwargs)
  with assms(2) have ce: "create_expression operator kwargs r = Inr (x, r')" by simp
  show ?thesis
  proof (cases "operator \<in> set var_const_operators")
    case True
    from create_expression_var_case[OF assms Create_expression True] show ?thesis .
  next
    case False
    from create_expression_op_case[OF assms(1) ce Create_expression False] show ?thesis .
  qed
qed

lemma after_call_ok:
  assumes "repo_ok r"
  shows "repo_ok (after_call c r) \<and> instances r \<subseteq>\<^sub>m instances (after_call c r)"
proof (cases "perform c r")
  case (Inl e) with assms show ?thesis by (simp add: after_call_def)
next
  case (Inr p)
  obtain x r' where "p = (x, r')" by (cases p)
  with Inr perform_ok[OF assms, of c x r'] show ?thesis by (simp add: after_call_def)
qed

lemma run_calls_ok:
  "repo_ok r \<Longrightarrow> repo_ok (run_calls cs r) \<and> instances r \<subseteq>\<^sub>m instances (run_calls cs r)"
proof (induction cs arbitrary: r)
  case Nil then show ?case by (simp add: run_calls_def)
next
  case (Cons c cs)
  from after_call_ok[OF Cons.prems, of c] Cons.IH[of "after_call c r"]
  show ?case by (auto simp: run_calls_def intro: map_le_trans)
qed

lemmas repo_eval = create_expression_def create_var_const_def var_const_key_def empty_repo_def
  lower_def lower_char_def upper_case_def lower_case_def Let_def var_const_operators_def
  operator_class_def operator_table_def infix_classes_def prefix_classes_def true_symbols_def
  sym_and_def sym_or_def sym_implies_def sym_not_def sym_box_def sym_diamond_def
  after_call_def run_calls_def base_repo_def

section \<open>The parser: tokens, trees and totality\<close>



lemma prefix_operators_nonempty: "[] \<notin> set prefix_operators"
  by (simp add: prefix_operators_def prefix_classes_def sym_not_def sym_box_def sym_diamond_def)


lemma interleave_simps [simp]:
  "interleave [] = []" "interleave ((op, e) # steps) = op # e # interleave steps"
  by (simp_all add: interleave_def)










declare tree_of.simps [simp del]










lemma left_fold_step:
  "operator_class op = Some c \<Longrightarrow> binary c t u = Some t' \<Longrightarrow> left_fold t ((op, u) # rest) = left_fold t' rest"
  by simp


declare expression.simps [simp del] impl_more.simps [simp del] or_expr.simps [simp del]
  or_more.simps [simp del] and_expr.simps [simp del] and_more.simps [simp del]
  prefix_expr.simps [simp del] atom.simps [simp del] nest.simps [simp del]
  prefix_more.simps [simp del]





























lemma raised_simps [simp]:
  "raised (Raises e r) = Some e" "raised (Returns v r) = None" "raised Starved = None"
  by (simp_all add: raised_def)


lemma follows_raises: "follows res out \<Longrightarrow> res = Raises e r \<Longrightarrow> out = Raises e r"
  by (auto simp: follows_def)










subsection \<open>Chains of names\<close>











lemma lower_char_not_upper: "lower_char c \<noteq> CHR ''T'' \<and> lower_char c \<noteq> CHR ''F''"
  by (simp add: lower_char_def upper_case_def lower_case_def)





























subsection \<open>Nesting beyond the recursion limit\<close>







section \<open>Entailment\<close>

text \<open>
  C1. For every model and expression, \<^verbatim>\<open>entails\<close> returns true if and only if the set
  \<^verbatim>\<open>calc\<close> returns is equal to \<^verbatim>\<open>W\<close>: neither a non-empty result nor a result that merely
  contains \<^verbatim>\<open>W\<close> is enough.
\<close>

theorem entails_iff: "fst (entails k e) \<longleftrightarrow> fst (calc e k) = W k"
  by (auto simp: entails_def split_beta Let_def dest: sorted_list_of_fset_inj)

theorem entails_iff_witness:
  "fst (calc (Box (Var ''p'')) scenario_2) = W scenario_2
   \<and> fst (entails scenario_2 (Box (Var ''p'')))
   \<and> fst (calc (Diamond (Var ''p'')) scenario_2) \<noteq> W scenario_2
   \<and> \<not> fst (entails scenario_2 (Diamond (Var ''p'')))"
proof -
  have b: "fst (calc (Box (Var ''p'')) scenario_2) = W scenario_2"
    by (auto simp: scenario_2_def model_defs)
  have d: "fst (calc (Diamond (Var ''p'')) scenario_2) \<noteq> W scenario_2"
    by (auto simp: scenario_2_def model_defs)
  from entails_iff[of scenario_2 "Box (Var ''p'')"] entails_iff[of scenario_2 "Diamond (Var ''p'')"] b d
  show ?thesis by simp
qed

section \<open>same_type\<close>

text \<open>
  C10. \<^verbatim>\<open>same_type\<close> does not tell the two modal operators apart: a Diamond node and a Box
  node have the same \<^verbatim>\<open>class_name\<close>, \<^verbatim>\<open>'box'\<close>, whatever their operands.
\<close>

theorem same_type_box_diamond:
  "same_type (Diamond e) (Box f) \<and> same_type (Box e) (Diamond f)"
  by (simp add: same_type_def)

section \<open>Box and Diamond\<close>

text \<open>
  C2, as stated, fails: in a model whose cache was filled before an edge was added, Box
  returns a cached world although one of its successors is outside the operand's set.
\<close>

theorem box_stale_counterexample:
  "''w1'' |\<in>| fst (calc (Box (Var ''p'')) stale_model) \<and> ''w1'' |\<in>| R stale_model ''w1''
   \<and> ''w1'' |\<notin>| fst (calc (Var ''p'') stale_model)"
  by (simp add: stale_model_def model_defs)

text \<open>
  C2, amended. In every model where no cached blind world has gained an outgoing edge
  since the cache was filled (in particular when the cache is unset),
  \<^verbatim>\<open>calc(Box(e), M)\<close> is exactly the set of worlds of \<^verbatim>\<open>W\<close> all of whose successors lie in
  \<^verbatim>\<open>calc(e, M)\<close>, and it holds every blind world. In every model, \<^verbatim>\<open>calc(Diamond(e), M)\<close> is
  exactly the set of worlds of \<^verbatim>\<open>W\<close> with some successor in \<^verbatim>\<open>calc(e, M)\<close>, and it holds no
  blind world.
\<close>

theorem calc_box_diamond:
  "(cache_sound k \<longrightarrow>
      fst (calc (Box e) k) = ffilter (\<lambda>w. fBall (R k w) (\<lambda>v. v |\<in>| fst (calc e k))) (W k)
      \<and> now_blind k |\<subseteq>| fst (calc (Box e) k))
   \<and> fst (calc (Diamond e) k) = ffilter (\<lambda>w. fBex (R k w) (\<lambda>v. v |\<in>| fst (calc e k))) (W k)
   \<and> now_blind k |\<inter>| fst (calc (Diamond e) k) = {||}"
proof -
  have box: "fst (calc (Box e) k) = ffilter (\<lambda>w. fBall (R k w) (\<lambda>v. v |\<in>| fst (calc e k))) (W k)"
    if "cache_sound k"
  proof -
    have "blind_view k |\<subseteq>| ffilter (\<lambda>w. fBall (R k w) (\<lambda>v. v |\<in>| sem e k)) (W k)"
      using cache_sound_view[OF that] now_blind_box by (rule order_trans)
    then show ?thesis by (simp only: calc_sem sem.simps sup_absorb1)
  qed
  have dia: "now_blind k |\<inter>| fst (calc (Diamond e) k) = {||}"
    by (simp only: calc_sem sem.simps) (auto simp: now_blind_def)
  have dia_eq: "fst (calc (Diamond e) k) = ffilter (\<lambda>w. fBex (R k w) (\<lambda>v. v |\<in>| fst (calc e k))) (W k)"
    by (simp only: calc_sem sem.simps)
  show ?thesis using box dia dia_eq now_blind_box[of k "\<lambda>v. v |\<in>| fst (calc e k)"] by simp
qed


theorem calc_box_diamond_witness:
  "cache_sound scenario_1
   \<and> fst (calc (Box (Var ''p'')) scenario_1) = {|''w1'', ''w2''|}
   \<and> now_blind scenario_1 = {|''w2''|}
   \<and> fst (calc (Diamond (Var ''p'')) scenario_1) = {|''w1''|}"
proof -
  have c: "cache_sound scenario_1" by (simp add: cache_sound_def scenario_1_def model_defs)
  have r: "R scenario_1 = (\<lambda>_. {||})(''w1'' := {|''w2''|})" by (simp add: scenario_1_def model_defs)
  have w: "W scenario_1 = {|''w1'', ''w2''|}" by (simp add: scenario_1_def model_defs)
  have v: "fst (calc (Var ''p'') scenario_1) = {|''w2''|}" by (simp add: scenario_1_def model_defs)
  have nb: "now_blind scenario_1 = {|''w2''|}" by (auto simp add: now_blind_def r w)
  from calc_box_diamond[of scenario_1 "Var ''p''"] c
  show ?thesis unfolding r w v nb by auto
qed

section \<open>The blind-worlds cache\<close>

text \<open>
  C9, as stated, fails: a world added after the first call is blind in the current state
  and missing from what \<^verbatim>\<open>blind_worlds\<close> returns.
\<close>

theorem blind_worlds_stale_counterexample:
  "''w2'' |\<in>| W grown_model \<and> R grown_model ''w2'' = {||}
   \<and> ''w2'' |\<notin>| fst (blind_worlds grown_model)"
  by (simp add: grown_model_def model_defs)

text \<open>
  C9, amended. The first call of \<^verbatim>\<open>blind_worlds\<close> (cache unset) returns the worlds of \<^verbatim>\<open>W\<close>
  with no outgoing edge in the state of that call; every later call returns that same set,
  whatever worlds, transitions or valuations were added in between.
\<close>

theorem blind_worlds_first_call:
  "fst (blind_worlds (fold mutate ms (snd (blind_worlds k)))) = fst (blind_worlds k)
   \<and> (cached_blind_worlds k = None \<longrightarrow> fst (blind_worlds k) = now_blind k)"
proof -
  have "cached_blind_worlds (fold mutate ms (snd (blind_worlds k))) = Some (blind_view k)"
    by (simp add: blind_worlds_cached)
  then have "blind_view (fold mutate ms (snd (blind_worlds k))) = blind_view k"
    by (rule blind_view_cached)
  moreover have "cached_blind_worlds k = None \<longrightarrow> blind_view k = now_blind k"
    by (simp add: blind_view_cases)
  ultimately show ?thesis by (simp add: blind_view_def)
qed

theorem blind_worlds_first_call_witness:
  "cached_blind_worlds (add_world ''w1'' Kripke_init) = None
   \<and> fst (blind_worlds (add_world ''w1'' Kripke_init)) = {|''w1''|}
   \<and> fst (blind_worlds (fold mutate [Add_world ''w2'', Add_trans (''w1'', ''w2'')]
            (snd (blind_worlds (add_world ''w1'' Kripke_init))))) = {|''w1''|}"
proof -
  have n: "cached_blind_worlds (add_world ''w1'' Kripke_init) = None"
    by (simp add: model_defs)
  have b: "now_blind (add_world ''w1'' Kripke_init) = {|''w1''|}"
    by (auto simp add: now_blind_def model_defs)
  from blind_worlds_first_call[of "[Add_world ''w2'', Add_trans (''w1'', ''w2'')]"
      "add_world ''w1'' Kripke_init"] n b
  show ?thesis by auto
qed

section \<open>Undeclared worlds\<close>

text \<open>
  C3, as stated, fails: an undeclared world of a valuation set is returned by \<^verbatim>\<open>Var.calc\<close>,
  and an edge from a declared world to an undeclared one removes the declared world from
  a Box result.
\<close>

theorem calc_undeclared_counterexample:
  "''u'' |\<in>| fst (calc (Var ''p'') undeclared_val_model) \<and> ''u'' |\<notin>| W undeclared_val_model
   \<and> ''w'' |\<in>| fst (calc (Box (Constant True)) (add_world ''w'' Kripke_init))
   \<and> ''w'' |\<notin>| fst (calc (Box (Constant True)) undeclared_edge_model)"
  by (simp add: undeclared_val_model_def undeclared_edge_model_def model_defs)

text \<open>
  C3, amended. If every valuation set and the cache hold declared worlds only, then
  \<^verbatim>\<open>calc(e, M)\<close> is a subset of \<^verbatim>\<open>W\<close>. If every edge out of a declared world leads to a
  declared world, then undeclared worlds in valuation sets and edges leaving undeclared
  worlds are inert: the declared worlds of the result are those of the result in the
  model without them.
\<close>

theorem calc_declared:
  "(vals_declared k \<and> cache_declared k \<longrightarrow> fst (calc e k) |\<subseteq>| W k)
   \<and> (edges_declared k \<longrightarrow>
        fst (calc e k) |\<inter>| W k = fst (calc e (declared_only k)) |\<inter>| W k)"
  using sem_declared[of k e] sem_declared_only[of k _ e] by (auto simp: calc_sem)

theorem calc_declared_witness:
  "vals_declared scenario_1 \<and> cache_declared scenario_1
   \<and> fst (calc (Box (Var ''p'')) scenario_1) |\<subseteq>| W scenario_1
   \<and> edges_declared undeclared_inert_model
   \<and> W undeclared_inert_model = {|''w'', ''x''|}
   \<and> V undeclared_inert_model ''p'' = {|''w'', ''u''|}
   \<and> V (declared_only undeclared_inert_model) ''p'' = {|''w''|}
   \<and> R undeclared_inert_model ''u'' = {|''w''|}
   \<and> R (declared_only undeclared_inert_model) ''u'' = {||}
   \<and> fst (calc (Var ''p'') undeclared_inert_model) = {|''w'', ''u''|}
   \<and> fst (calc (Var ''p'') (declared_only undeclared_inert_model)) = {|''w''|}
   \<and> fst (calc (Var ''p'') undeclared_inert_model) |\<inter>| W undeclared_inert_model
       = fst (calc (Var ''p'') (declared_only undeclared_inert_model)) |\<inter>| W undeclared_inert_model
   \<and> fst (calc (Box (Not_e (Var ''p''))) undeclared_inert_model) |\<inter>| W undeclared_inert_model
       = fst (calc (Box (Not_e (Var ''p''))) (declared_only undeclared_inert_model))
           |\<inter>| W undeclared_inert_model"
proof -
  have v: "vals_declared scenario_1" by (simp add: vals_declared_def scenario_1_def model_defs)
  have c: "cache_declared scenario_1"
    by (simp add: cache_declared_def scenario_1_def model_defs)
  have e: "edges_declared undeclared_inert_model"
    by (simp add: edges_declared_def undeclared_inert_model_def model_defs)
  have m: "W undeclared_inert_model = {|''w'', ''x''|}"
    "V undeclared_inert_model ''p'' = {|''w'', ''u''|}"
    "V (declared_only undeclared_inert_model) ''p'' = {|''w''|}"
    "R undeclared_inert_model ''u'' = {|''w''|}"
    "R (declared_only undeclared_inert_model) ''u'' = {||}"
    by (auto simp add: undeclared_inert_model_def declared_only_def model_defs)
  from m have p: "fst (calc (Var ''p'') undeclared_inert_model) = {|''w'', ''u''|}"
    "fst (calc (Var ''p'') (declared_only undeclared_inert_model)) = {|''w''|}"
    by simp_all
  from calc_declared[of scenario_1 "Box (Var ''p'')"] v c
  have 1: "fst (calc (Box (Var ''p'')) scenario_1) |\<subseteq>| W scenario_1" by blast
  from calc_declared[of undeclared_inert_model "Var ''p''"] e
  have 2: "fst (calc (Var ''p'') undeclared_inert_model) |\<inter>| W undeclared_inert_model
       = fst (calc (Var ''p'') (declared_only undeclared_inert_model)) |\<inter>| W undeclared_inert_model"
    by blast
  from calc_declared[of undeclared_inert_model "Box (Not_e (Var ''p''))"] e
  have 3: "fst (calc (Box (Not_e (Var ''p''))) undeclared_inert_model) |\<inter>| W undeclared_inert_model
       = fst (calc (Box (Not_e (Var ''p''))) (declared_only undeclared_inert_model))
           |\<inter>| W undeclared_inert_model"
    by blast
  from v c e m p 1 2 3 show ?thesis by simp
qed

section \<open>Implies and Or\<close>

text \<open>
  C4, as stated, fails: an undeclared world of the right operand's set is in the Or result
  and not in the Implies result.
\<close>

theorem implies_as_or_counterexample:
  "''u'' |\<in>| fst (calc (Or (Not_e (Var ''p'')) (Var ''q'')) undeclared_rhs_model)
   \<and> ''u'' |\<notin>| fst (calc (Implies (Var ''p'') (Var ''q'')) undeclared_rhs_model)"
  by (simp add: undeclared_rhs_model_def model_defs)

text \<open>
  C4, amended. \<^verbatim>\<open>calc(Implies(a, b), M)\<close> equals \<^verbatim>\<open>calc(Or(Not(a), b), M)\<close> exactly when every
  world of \<^verbatim>\<open>calc(b, M)\<close> is declared or in \<^verbatim>\<open>calc(a, M)\<close>; in particular whenever every
  valuation set and the cache hold declared worlds only, also when \<^verbatim>\<open>calc(a, M)\<close> is empty
  and \<^verbatim>\<open>Implies.calc\<close> returns early.
\<close>

theorem implies_as_or:
  "(fst (calc (Implies a b) k) = fst (calc (Or (Not_e a) b) k)
      \<longleftrightarrow> fst (calc b k) |\<subseteq>| W k |\<union>| fst (calc a k))
   \<and> (vals_declared k \<and> cache_declared k \<longrightarrow>
        fst (calc (Implies a b) k) = fst (calc (Or (Not_e a) b) k))"
proof -
  have 1: "fst (calc (Implies a b) k) = fst (calc (Or (Not_e a) b) k)
      \<longleftrightarrow> fst (calc b k) |\<subseteq>| W k |\<union>| fst (calc a k)"
    by (simp only: calc_sem sem.simps) blast
  have "sem b k |\<subseteq>| W k |\<union>| sem a k" if "vals_declared k" "cache_declared k"
    using sem_declared[OF that, of b] by blast
  with 1 show ?thesis by (simp add: calc_sem)
qed

theorem implies_as_or_witness:
  "vals_declared scenario_1 \<and> cache_declared scenario_1
   \<and> fst (calc (Var ''q'') scenario_1) = {||}
   \<and> fst (calc (Implies (Var ''q'') (Var ''p'')) scenario_1)
       = fst (calc (Or (Not_e (Var ''q'')) (Var ''p'')) scenario_1)"
proof -
  have "vals_declared scenario_1" by (simp add: vals_declared_def scenario_1_def model_defs)
  moreover have "cache_declared scenario_1"
    by (simp add: cache_declared_def scenario_1_def model_defs)
  moreover have "fst (calc (Var ''q'') scenario_1) = {||}"
    by (simp add: scenario_1_def model_defs)
  ultimately show ?thesis
    using implies_as_or[of "Var ''q''" "Var ''p''" scenario_1] by blast
qed

section \<open>Constants and variables\<close>

text \<open>
  C6. A name that is the symbol for top or bottom should give a Constant node. The code
  gives a Var node: \<^verbatim>\<open>create_var_const\<close> tests the name against \<^verbatim>\<open>Constant.symbols\<close>, which
  lacks the two symbols that \<^verbatim>\<open>true_symbols\<close> and \<^verbatim>\<open>false_symbols\<close> list.
\<close>

theorem create_var_const_top:
  "var_const_key sym_top = (Var_cls, Name sym_top)
   \<and> var_const_key sym_bottom = (Var_cls, Name sym_bottom)
   \<and> tree_of (heap (snd (create_var_const sym_top empty_repo)))
        (fst (create_var_const sym_top empty_repo)) = Some (Var sym_top)"
  by (simp add: create_var_const_def var_const_key_def empty_repo_def lower_def lower_char_def
       sym_top_def sym_bottom_def upper_case_def lower_case_def Let_def tree_of.simps)

section \<open>Interning\<close>

text \<open>
  C7. Take a table in a state the factory produces, a factory call that returns, any
  number of further factory calls, and another factory call that returns. The two calls
  return the same object exactly when they ask for the same class with the same
  arguments, children compared by identity.
\<close>

theorem interning:
  assumes "repo_ok r"
    and "perform c1 r = Inr (x, r1)"
    and "perform c2 (run_calls cs r1) = Inr (y, r2)"
  shows "x = y \<longleftrightarrow> node_key c1 = node_key c2"
proof -
  from perform_ok[OF assms(1,2)] obtain k1 where ok1: "repo_ok r1"
    and k1: "node_key c1 = Some k1" "instances r1 k1 = Some x" by blast
  from run_calls_ok[OF ok1, of cs] have ok': "repo_ok (run_calls cs r1)"
    and le': "instances r1 \<subseteq>\<^sub>m instances (run_calls cs r1)" by blast+
  from perform_ok[OF ok' assms(3)] obtain k2 where ok2: "repo_ok r2"
    and k2: "node_key c2 = Some k2" "instances r2 k2 = Some y"
    and le2: "instances (run_calls cs r1) \<subseteq>\<^sub>m instances r2" by blast
  from k1(2) le' le2 have x2: "instances r2 k1 = Some x"
    by (metis domI map_le_def)
  show ?thesis
  proof
    assume "x = y"
    with ok2 x2 k2(2) have "k1 = k2" unfolding repo_ok_def by metis
    with k1 k2 show "node_key c1 = node_key c2" by simp
  next
    assume "node_key c1 = node_key c2"
    with k1 k2 x2 show "x = y" by simp
  qed
qed

theorem interning_witness:
  "repo_ok base_repo
   \<and> perform (Create_expression (Str ''->'') [Obj 0, Obj 1]) base_repo
       = Inr (2, after_call (Create_expression (Str ''->'') [Obj 0, Obj 1]) base_repo)
   \<and> perform (Create_expression (Str ''implies'') [Obj 0, Obj 1])
         (run_calls [Create_var_const ''c'']
            (after_call (Create_expression (Str ''->'') [Obj 0, Obj 1]) base_repo))
       = Inr (2, after_call (Create_expression (Str ''implies'') [Obj 0, Obj 1])
         (run_calls [Create_var_const ''c'']
            (after_call (Create_expression (Str ''->'') [Obj 0, Obj 1]) base_repo)))
   \<and> node_key (Create_expression (Str ''->'') [Obj 0, Obj 1])
       = node_key (Create_expression (Str ''implies'') [Obj 0, Obj 1])"
proof -
  have ok: "repo_ok base_repo"
    unfolding base_repo_def using run_calls_ok[OF repo_ok_empty] by blast
  have p1: "perform (Create_expression (Str ''->'') [Obj 0, Obj 1]) base_repo
       = Inr (2, after_call (Create_expression (Str ''->'') [Obj 0, Obj 1]) base_repo)"
    by (simp add: repo_eval)
  have p2: "perform (Create_expression (Str ''implies'') [Obj 0, Obj 1])
         (run_calls [Create_var_const ''c'']
            (after_call (Create_expression (Str ''->'') [Obj 0, Obj 1]) base_repo))
       = Inr (2, after_call (Create_expression (Str ''implies'') [Obj 0, Obj 1])
         (run_calls [Create_var_const ''c'']
            (after_call (Create_expression (Str ''->'') [Obj 0, Obj 1]) base_repo)))"
    by (simp add: repo_eval)
  from interning[OF ok p1 p2] ok p1 p2 show ?thesis by simp
qed

section \<open>Associativity\<close>



section \<open>Malformed input\<close>




end
